theory Spec2Isabelle
  imports Complex_Main "HOL-Library.Sublist"
begin

section \<open>JavaScript values and the built-in conversions the table uses\<close>

text \<open>
  The rows handed to \<open>ReactTable\<close> are plain objects whose fields hold primitive values.
  A number is an integer-valued number (\<open>JNum\<close>, of a size that \<open>String\<close> still prints in
  decimal digits) or \<open>NaN\<close>; fractions and the infinities are not represented. A string
  is a list of characters, each standing for one code unit below 256. An object is the
  list of its own enumerable properties in the order in which \<open>Object.keys\<close> lists
  them; property names are assumed not to collide with the names inherited from
  \<open>Object.prototype\<close>.
\<close>

datatype jsval = JUndefined | JNull | JBool bool | JNum int | JNaN | JStr string

datatype error = TypeError | RangeError

type_synonym obj = "(string \<times> jsval) list"

definition keys :: "obj \<Rightarrow> string list" where
  \<comment> \<open>\<open>Object.keys(o)\<close>\<close>
  "keys ob = map fst ob"

definition get :: "obj \<Rightarrow> string \<Rightarrow> jsval" where
  \<comment> \<open>\<open>o[k]\<close>: a missing property reads as \<open>undefined\<close>\<close>
  "get ob k = (case map_of ob k of None \<Rightarrow> JUndefined | Some v \<Rightarrow> v)"

fun merge_key :: "obj \<Rightarrow> string \<Rightarrow> jsval \<Rightarrow> obj" where
  \<comment> \<open>\<open>{ ...prev, [key]: value }\<close>: an existing property keeps its place, a new one
      goes last (the order of names that are not array indices)\<close>
  "merge_key [] k v = [(k, v)]"
| "merge_key ((k', v') # rest) k v =
     (if k' = k then (k, v) # rest else (k', v') # merge_key rest k v)"

definition digit_char :: "nat \<Rightarrow> char" where
  "digit_char d = ''0123456789'' ! d"

fun nat_digits :: "nat \<Rightarrow> string" where
  "nat_digits n =
     (if n < 10 then [digit_char n]
      else nat_digits (n div 10) @ [digit_char (n mod 10)])"

declare nat_digits.simps [simp del]

definition number_to_string :: "int \<Rightarrow> string" where
  "number_to_string i =
     (if i < 0 then CHR ''-'' # nat_digits (nat (- i)) else nat_digits (nat i))"

fun ToString :: "jsval \<Rightarrow> string" where
  \<comment> \<open>\<open>String(v)\<close>\<close>
  "ToString JUndefined = ''undefined''"
| "ToString JNull = ''null''"
| "ToString (JBool b) = (if b then ''true'' else ''false'')"
| "ToString (JNum i) = number_to_string i"
| "ToString JNaN = ''NaN''"
| "ToString (JStr s) = s"

fun ToBoolean :: "jsval \<Rightarrow> bool" where
  \<comment> \<open>\<open>Boolean(v)\<close>, \<open>!!v\<close> and the test of \<open>v ? a : b\<close>\<close>
  "ToBoolean JUndefined = False"
| "ToBoolean JNull = False"
| "ToBoolean (JBool b) = b"
| "ToBoolean (JNum i) = (i \<noteq> 0)"
| "ToBoolean JNaN = False"
| "ToBoolean (JStr s) = (s \<noteq> [])"

definition is_string :: "jsval \<Rightarrow> bool" where
  \<comment> \<open>\<open>typeof v === 'string'\<close>\<close>
  "is_string v = (case v of JStr s \<Rightarrow> True | _ \<Rightarrow> False)"

definition lower_char :: "char \<Rightarrow> char" where
  \<comment> \<open>the letters \<open>A\<close> to \<open>Z\<close> and the capital letters of the Latin-1 block, which
      lie 32 below their small forms; 215 is the multiplication sign\<close>
  "lower_char c =
     (let n = (of_char c :: nat)
      in if (65 \<le> n \<and> n \<le> 90) \<or> (192 \<le> n \<and> n \<le> 222 \<and> n \<noteq> 215)
         then char_of (n + 32) else c)"

definition toLowerCase :: "string \<Rightarrow> string" where
  "toLowerCase s = map lower_char s"

definition call_toLowerCase :: "jsval \<Rightarrow> error + string" where
  \<comment> \<open>the method call \<open>v.toLowerCase()\<close>: only a string has the method\<close>
  "call_toLowerCase v = (case v of JStr s \<Rightarrow> Inr (toLowerCase s) | _ \<Rightarrow> Inl TypeError)"

fun starts_with :: "string \<Rightarrow> string \<Rightarrow> bool" where
  "starts_with hay [] = True"
| "starts_with [] (c # needle) = False"
| "starts_with (h # hay) (c # needle) = (h = c \<and> starts_with hay needle)"

fun str_includes :: "string \<Rightarrow> string \<Rightarrow> bool" where
  \<comment> \<open>\<open>hay.includes(needle)\<close>\<close>
  "str_includes [] needle = (needle = [])"
| "str_includes (h # hay) needle = (starts_with (h # hay) needle \<or> str_includes hay needle)"

text \<open>
  \<open>Array.prototype.some\<close>, \<open>every\<close> and \<open>filter\<close> with a callback that may throw.
  \<open>some\<close> stops at the first \<open>true\<close>, \<open>every\<close> at the first \<open>false\<close>, \<open>filter\<close> visits
  every element; an exception of the callback ends the call.
\<close>

fun js_some :: "('a \<Rightarrow> error + bool) \<Rightarrow> 'a list \<Rightarrow> error + bool" where
  "js_some cb [] = Inr False"
| "js_some cb (x # xs) =
     (case cb x of Inl e \<Rightarrow> Inl e | Inr b \<Rightarrow> if b then Inr True else js_some cb xs)"

fun js_every :: "('a \<Rightarrow> error + bool) \<Rightarrow> 'a list \<Rightarrow> error + bool" where
  "js_every cb [] = Inr True"
| "js_every cb (x # xs) =
     (case cb x of Inl e \<Rightarrow> Inl e | Inr b \<Rightarrow> if b then js_every cb xs else Inr False)"

fun js_filter :: "('a \<Rightarrow> error + bool) \<Rightarrow> 'a list \<Rightarrow> error + 'a list" where
  "js_filter cb [] = Inr []"
| "js_filter cb (x # xs) =
     (case cb x of
        Inl e \<Rightarrow> Inl e
      | Inr b \<Rightarrow>
          (case js_filter cb xs of
             Inl e \<Rightarrow> Inl e
           | Inr ys \<Rightarrow> Inr (if b then x # ys else ys)))"

definition js_slice :: "'a list \<Rightarrow> int \<Rightarrow> int \<Rightarrow> 'a list" where
  \<comment> \<open>\<open>xs.slice(start, end)\<close>: a negative bound counts from the end, both bounds are
      clipped to the array\<close>
  "js_slice xs start end' =
     (let len = int (length xs);
          k = (if start < 0 then max (len + start) 0 else min start len);
          final = (if end' < 0 then max (len + end') 0 else min end' len)
      in take (nat (final - k)) (drop (nat k) xs))"


section \<open>The component's data\<close>

text \<open>
  Of a \<open>Filter\<close> the fields that decide the filtering are kept: its type, its
  \<open>dataIndex\<close> and the optional \<open>onFilterChange\<close> callback, a caller's function that
  the model knows by a number only. Of a \<open>Column\<close> the fields read by the table are
  kept, \<open>visible\<close> being \<open>undefined\<close> when the caller leaves it out.
\<close>

record Filter =
  type :: string
  dataIndex :: string
  onFilterChange :: "nat option"

record Column =
  title :: string
  key :: string
  col_dataIndex :: string
  visible :: jsval

record Pagination =
  currentPage :: int
  pageLength :: int

record table_state =
  renderData :: "obj list"
  appliedFilters :: obj
  filterValues :: obj
  pageData :: Pagination


section \<open>Filtering\<close>

definition getFilters :: "Filter list option \<Rightarrow> Filter list" where
  \<comment> \<open>\<open>filters || []\<close>\<close>
  "getFilters filters = (case filters of None \<Rightarrow> [] | Some fs \<Rightarrow> fs)"

definition findFilter :: "Filter list option \<Rightarrow> string \<Rightarrow> Filter option" where
  \<comment> \<open>\<open>getFilters().filter(item => item.dataIndex === k)[0]\<close>, \<open>None\<close> for \<open>undefined\<close>\<close>
  "findFilter filters k =
     (case filter (\<lambda>item. dataIndex item = k) (getFilters filters) of
        [] \<Rightarrow> None
      | fd # _ \<Rightarrow> Some fd)"

definition filterType :: "Filter list option \<Rightarrow> string \<Rightarrow> string" where
  \<comment> \<open>the type the \<open>switch\<close> dispatches on\<close>
  "filterType filters k =
     (case findFilter filters k of None \<Rightarrow> ''globalSearch'' | Some fd \<Rightarrow> type fd)"

definition globalSearch :: "obj \<Rightarrow> jsval \<Rightarrow> error + bool" where
  \<comment> \<open>the \<open>default\<close> branch: \<open>appliedFilter.toLowerCase()\<close> is evaluated inside the
      callback, once for each field visited\<close>
  "globalSearch item appliedFilter =
     js_some
       (\<lambda>k. case call_toLowerCase appliedFilter of
               Inl e \<Rightarrow> Inl e
             | Inr s \<Rightarrow> Inr (str_includes (toLowerCase (ToString (get item k))) (ToString (JStr s))))
       (keys item)"

definition matches :: "Filter list option \<Rightarrow> obj \<Rightarrow> obj \<Rightarrow> string \<Rightarrow> error + bool" where
  \<comment> \<open>the callback of \<open>every\<close>, for the row \<open>item\<close> and the applied-filter key \<open>k\<close>\<close>
  "matches filters applied item k =
     (let appliedFilter = get applied k;
          ty = filterType filters k
      in if ty = ''select'' then
           Inr (ToString (get item k) = ToString appliedFilter)
         else if ty = ''input'' then
           Inr (str_includes (toLowerCase (ToString (get item k)))
                         (toLowerCase (ToString appliedFilter)))
         else if ty = ''toggle'' then
           Inr (ToBoolean (get item k) = ToBoolean appliedFilter)
         else globalSearch item appliedFilter)"

definition apply_filters :: "Filter list option \<Rightarrow> obj \<Rightarrow> obj list \<Rightarrow> error + obj list" where
  \<comment> \<open>the filtering effect: the argument handed to \<open>setData\<close>\<close>
  "apply_filters filters applied data =
     js_filter (\<lambda>item. js_every (matches filters applied item) (keys applied)) data"

definition string_fallbacks :: "Filter list option \<Rightarrow> obj \<Rightarrow> bool" where
  \<comment> \<open>the applied values that reach the \<open>default\<close> branch are strings\<close>
  "string_fallbacks filters applied =
     list_all
       (\<lambda>k. filterType filters k \<in> {''select'', ''input'', ''toggle''} \<or> is_string (get applied k))
       (keys applied)"

text \<open>
  \<open>handleFilterChange\<close> of the implementation with pagination. The result is the state
  after the updates the call has queued, and either the exception it ends with or the
  call of the filter's own callback, if it made one: the callback, the value, the key
  and the filter values passed to it.
\<close>

type_synonym callback_call = "nat \<times> jsval \<times> string \<times> obj"

definition handleFilterChange ::
  "Filter list option \<Rightarrow> jsval \<Rightarrow> string \<Rightarrow> table_state
     \<Rightarrow> table_state \<times> (error + callback_call option)" where
  "handleFilterChange filters filterValue k st =
     (let filterData = findFilter filters k;
          st1 = st\<lparr>filterValues := merge_key (filterValues st) k filterValue\<rparr>
      in case filterData of
           None \<Rightarrow> (st1, Inl TypeError)
         | Some fd \<Rightarrow>
             (case onFilterChange fd of
                Some cb \<Rightarrow>
                  (st1, Inr (Some (cb, filterValue, k, merge_key (filterValues st) k filterValue)))
              | None \<Rightarrow>
                  (st1\<lparr>appliedFilters := merge_key (appliedFilters st) k filterValue\<rparr>,
                   Inr None)))"

definition handleFilterChange2 :: "jsval \<Rightarrow> string \<Rightarrow> obj \<Rightarrow> obj" where
  \<comment> \<open>\<open>handleFilterChange\<close> of the implementation without pagination, on its only
      state, the applied filters\<close>
  "handleFilterChange2 filterValue k applied = merge_key applied k filterValue"

definition clearFilters :: "table_state \<Rightarrow> table_state" where
  "clearFilters st = st\<lparr>appliedFilters := [], filterValues := []\<rparr>"


section \<open>Row keys, pagination and column visibility\<close>

definition getRowKey :: "string option \<Rightarrow> obj \<Rightarrow> jsval" where
  \<comment> \<open>\<open>rowKey ? item[rowKey] : item['key'] ? item['key'] : null\<close>; an absent and an
      empty \<open>rowKey\<close> are both falsy\<close>
  "getRowKey rowKey item =
     (case rowKey of
        Some rk \<Rightarrow>
          if rk \<noteq> [] then get item rk
          else if ToBoolean (get item ''key'') then get item ''key'' else JNull
      | None \<Rightarrow> if ToBoolean (get item ''key'') then get item ''key'' else JNull)"

definition getRowKey_spec :: "string option \<Rightarrow> obj \<Rightarrow> jsval" where
  \<comment> \<open>the row identity contract in the specification's words: \<open>row[rowKey]\<close> if
      \<open>rowKey\<close> is set and present, else \<open>row["key"]\<close> if present, else null\<close>
  "getRowKey_spec rowKey item =
     (case rowKey of
        Some rk \<Rightarrow>
          if rk \<in> set (keys item) then get item rk
          else if ''key'' \<in> set (keys item) then get item ''key'' else JNull
      | None \<Rightarrow> if ''key'' \<in> set (keys item) then get item ''key'' else JNull)"

definition paginatedData :: "obj list \<Rightarrow> Pagination \<Rightarrow> obj list" where
  "paginatedData rows pd =
     js_slice rows ((currentPage pd - 1) * pageLength pd) (pageLength pd * currentPage pd)"

definition setPageNumber :: "int \<Rightarrow> table_state \<Rightarrow> table_state" where
  "setPageNumber page st = st\<lparr>pageData := (pageData st)\<lparr>currentPage := page\<rparr>\<rparr>"

definition pageCount :: "nat \<Rightarrow> int \<Rightarrow> int" where
  \<comment> \<open>\<open>Math.floor(renderData.length / pagination.pageLength)\<close>, for a page length
      other than 0\<close>
  "pageCount n pl = \<lfloor>real n / real_of_int pl\<rfloor>"

definition pageNumbers :: "obj list \<Rightarrow> int \<Rightarrow> error + int list option" where
  \<comment> \<open>the page numbers offered for navigation, \<open>None\<close> when the pagination bar is not
      rendered. Dividing by 0 gives \<open>Infinity\<close>, and \<open>Array\<close> rejects that and every
      negative length\<close>
  "pageNumbers rows pl =
     (if int (length rows) > pl then
        if pl = 0 \<or> pageCount (length rows) pl < 0 then Inl RangeError
        else Inr (Some (map (\<lambda>pageNumber. int pageNumber + 1)
                            [0 ..< nat (pageCount (length rows) pl)]))
      else Inr None)"

definition falsy :: "jsval list" where
  "falsy = [JBool False, JStr ''0'', JStr ''false'', JNum 0]"

definition array_includes :: "jsval list \<Rightarrow> jsval \<Rightarrow> bool" where
  \<comment> \<open>\<open>xs.includes(v)\<close> compares without conversion (\<open>NaN\<close> equal to itself), which on
      these values is equality\<close>
  "array_includes xs v = list_ex (\<lambda>x. x = v) xs"

definition isVisible :: "Column \<Rightarrow> bool" where
  \<comment> \<open>\<open>!falsy.includes(column.visible)\<close>, the test of the implementation that declares
      \<open>falsy\<close>\<close>
  "isVisible column = (\<not> array_includes falsy (visible column))"

definition isVisible_strict :: "Column \<Rightarrow> bool" where
  \<comment> \<open>\<open>column.visible !== false\<close>, the test of the implementation with pagination\<close>
  "isVisible_strict column = (visible column \<noteq> JBool False)"


section \<open>Facts about the built-in operations\<close>

lemma starts_with_prefix: "starts_with hay needle \<longleftrightarrow> prefix needle hay"
  by (induction hay needle rule: starts_with.induct) auto

lemma str_includes_sublist: "str_includes hay needle \<longleftrightarrow> sublist needle hay"
  by (induction hay) (simp_all add: starts_with_prefix sublist_Cons_right)

lemma js_some_total:
  "\<forall>x \<in> set xs. \<exists>b. cb x = Inr b \<Longrightarrow> js_some cb xs = Inr (\<exists>x \<in> set xs. cb x = Inr True)"
  by (induction xs) auto

lemma js_every_total:
  "\<forall>x \<in> set xs. \<exists>b. cb x = Inr b \<Longrightarrow> js_every cb xs = Inr (\<forall>x \<in> set xs. cb x = Inr True)"
  by (induction xs) auto

lemma js_filter_total:
  "\<forall>x \<in> set xs. \<exists>b. cb x = Inr b \<Longrightarrow> js_filter cb xs = Inr (filter (\<lambda>x. cb x = Inr True) xs)"
  by (induction xs) auto

lemma js_every_result:
  "js_every cb xs = Inr b \<Longrightarrow> b = (\<forall>x \<in> set xs. cb x = Inr True)"
proof (induction xs)
  case Nil
  then show ?case by simp
next
  case (Cons x xs)
  show ?case
  proof (cases "cb x")
    case (Inl e)
    with Cons.prems show ?thesis by simp
  next
    case (Inr c)
    show ?thesis
    proof (cases c)
      case True
      with Inr Cons show ?thesis by simp
    next
      case False
      with Inr Cons.prems show ?thesis by auto
    qed
  qed
qed

lemma js_filter_result:
  assumes "\<And>x b. cb x = Inr b \<Longrightarrow> b = P x"
  shows "js_filter cb xs = Inr ys \<Longrightarrow> ys = filter P xs"
proof (induction xs arbitrary: ys)
  case Nil
  then show ?case by simp
next
  case (Cons x xs)
  from Cons.prems obtain b zs where b: "cb x = Inr b" and zs: "js_filter cb xs = Inr zs"
    and ys: "ys = (if b then x # zs else zs)"
    by (auto split: sum.splits)
  from Cons.IH [OF zs] assms [OF b] ys show ?case by simp
qed

lemma findFilter_None:
  "findFilter filters k = None \<longleftrightarrow> (\<forall>fd \<in> set (getFilters filters). dataIndex fd \<noteq> k)"
proof -
  have "filter (\<lambda>item. dataIndex item = k) (getFilters filters) = [] \<longleftrightarrow>
        (\<forall>fd \<in> set (getFilters filters). dataIndex fd \<noteq> k)"
    by (simp add: filter_empty_conv)
  then show ?thesis
    by (cases "filter (\<lambda>item. dataIndex item = k) (getFilters filters)")
       (simp_all add: findFilter_def)
qed

lemma globalSearch_string:
  "globalSearch item (JStr s) =
     Inr (\<exists>k \<in> set (keys item). sublist (toLowerCase s) (toLowerCase (ToString (get item k))))"
  unfolding globalSearch_def call_toLowerCase_def
  by (simp add: js_some_total str_includes_sublist)

lemma matches_total:
  assumes "filterType filters k \<in> {''select'', ''input'', ''toggle''} \<or> is_string (get applied k)"
  shows "\<exists>b. matches filters applied item k = Inr b"
proof (cases "filterType filters k \<in> {''select'', ''input'', ''toggle''}")
  case True
  then show ?thesis by (auto simp: matches_def)
next
  case False
  with assms obtain s where "get applied k = JStr s"
    by (auto simp: is_string_def split: jsval.splits)
  then show ?thesis by (simp add: matches_def Let_def globalSearch_string)
qed

lemma filterType_found: "findFilter filters k = Some fd \<Longrightarrow> filterType filters k = type fd"
  by (simp add: filterType_def)

lemma get_absent: "k \<notin> set (keys ob) \<Longrightarrow> get ob k = JUndefined"
  by (simp add: get_def keys_def map_of_eq_None_iff [THEN iffD2])


section \<open>The filtered rows\<close>

text \<open>
  Claim C1. When every applied value that falls to the global search is a string, as
  the values typed into the search box are, the filtering effect returns the rows,
  in their order, that match under every applied key, each key taken with its own
  rule; with no applied filter it returns the rows as they are. Whatever the applied
  values, a result of the effect is that list of rows.
\<close>

theorem apply_filters_and:
  "(string_fallbacks filters applied \<longrightarrow>
      apply_filters filters applied data =
        Inr (filter (\<lambda>item. \<forall>k \<in> set (keys applied). matches filters applied item k = Inr True)
               data))
   \<and> apply_filters filters [] data = Inr data
   \<and> (\<forall>out. apply_filters filters applied data = Inr out \<longrightarrow>
         out = filter (\<lambda>item. \<forall>k \<in> set (keys applied). matches filters applied item k = Inr True)
                 data)"
proof (intro conjI impI allI)
  fix out assume out: "apply_filters filters applied data = Inr out"
  have "b = (\<forall>k \<in> set (keys applied). matches filters applied item k = Inr True)"
    if "js_every (matches filters applied item) (keys applied) = Inr b" for item b
    using that by (rule js_every_result)
  then show "out = filter (\<lambda>item. \<forall>k \<in> set (keys applied). matches filters applied item k = Inr True)
                 data"
    using out unfolding apply_filters_def by (rule js_filter_result)
next
  assume wf: "string_fallbacks filters applied"
  then have tot: "\<forall>k \<in> set (keys applied). \<exists>b. matches filters applied item k = Inr b" for item
    by (auto simp: string_fallbacks_def list_all_iff intro!: matches_total)
  have ev: "js_every (matches filters applied item) (keys applied)
              = Inr (\<forall>k \<in> set (keys applied). matches filters applied item k = Inr True)" for item
    using tot [of item] by (rule js_every_total)
  show "apply_filters filters applied data =
        Inr (filter (\<lambda>item. \<forall>k \<in> set (keys applied). matches filters applied item k = Inr True)
               data)"
    unfolding apply_filters_def by (subst js_filter_total) (simp_all add: ev)
next
  show "apply_filters filters [] data = Inr data"
    unfolding apply_filters_def keys_def by (induction data) simp_all
qed

theorem apply_filters_and_witness:
  "string_fallbacks
     (Some [\<lparr>type = ''select'', dataIndex = ''status'', onFilterChange = None\<rparr>,
            \<lparr>type = ''toggle'', dataIndex = ''active'', onFilterChange = None\<rparr>])
     [(''status'', JStr ''open''), (''active'', JBool True), (''globalSearch'', JStr ''b'')]
   \<and> apply_filters
       (Some [\<lparr>type = ''select'', dataIndex = ''status'', onFilterChange = None\<rparr>,
              \<lparr>type = ''toggle'', dataIndex = ''active'', onFilterChange = None\<rparr>])
       [(''status'', JStr ''open''), (''active'', JBool True), (''globalSearch'', JStr ''b'')]
       [[(''name'', JStr ''Al''), (''status'', JStr ''open''), (''active'', JBool True)],
        [(''name'', JStr ''Bo''), (''status'', JStr ''open''), (''active'', JBool True)],
        [(''name'', JStr ''Bea''), (''status'', JStr ''closed''), (''active'', JBool True)],
        [(''name'', JStr ''Rob''), (''status'', JStr ''open''), (''active'', JNum 1)],
        [(''name'', JStr ''Abe''), (''status'', JStr ''open''), (''active'', JBool False)]]
     = Inr [[(''name'', JStr ''Bo''), (''status'', JStr ''open''), (''active'', JBool True)],
            [(''name'', JStr ''Rob''), (''status'', JStr ''open''), (''active'', JNum 1)]]"
proof -
  let ?F = "Some [\<lparr>type = ''select'', dataIndex = ''status'', onFilterChange = None\<rparr>,
                  \<lparr>type = ''toggle'', dataIndex = ''active'', onFilterChange = None\<rparr>]"
  let ?A = "[(''status'', JStr ''open''), (''active'', JBool True), (''globalSearch'', JStr ''b'')]"
  let ?D = "[[(''name'', JStr ''Al''), (''status'', JStr ''open''), (''active'', JBool True)],
        [(''name'', JStr ''Bo''), (''status'', JStr ''open''), (''active'', JBool True)],
        [(''name'', JStr ''Bea''), (''status'', JStr ''closed''), (''active'', JBool True)],
        [(''name'', JStr ''Rob''), (''status'', JStr ''open''), (''active'', JNum 1)],
        [(''name'', JStr ''Abe''), (''status'', JStr ''open''), (''active'', JBool False)]]"
  have wf: "string_fallbacks ?F ?A"
    by code_simp
  have sel: "filter (\<lambda>item. \<forall>k \<in> set (keys ?A). matches ?F ?A item k = Inr True) ?D
      = [[(''name'', JStr ''Bo''), (''status'', JStr ''open''), (''active'', JBool True)],
         [(''name'', JStr ''Rob''), (''status'', JStr ''open''), (''active'', JNum 1)]]"
    by code_simp
  from apply_filters_and [of ?F ?A ?D, THEN conjunct1] wf sel show ?thesis
    by simp
qed


section \<open>The global search\<close>

text \<open>
  Claim C2. Under a key that is the \<open>dataIndex\<close> of no filter, the reserved key
  \<open>globalSearch\<close> among them, a row matches an applied string exactly when one of its
  fields, converted to a string and lower-cased, contains the lower-cased string. Every
  field of the row is looked at: a field shown by a column that is not visible makes
  the row match as any other does.
\<close>

theorem globalSearch_fallback:
  assumes "\<forall>fd \<in> set (getFilters filters). dataIndex fd \<noteq> k"
    and "get applied k = JStr s"
  shows "matches filters applied item k =
           Inr (\<exists>f \<in> set (keys item). sublist (toLowerCase s) (toLowerCase (ToString (get item f))))
         \<and> (\<forall>column. \<not> isVisible column \<and> col_dataIndex column \<in> set (keys item)
                \<and> sublist (toLowerCase s) (toLowerCase (ToString (get item (col_dataIndex column))))
              \<longrightarrow> matches filters applied item k = Inr True)"
proof -
  from assms(1) have "filterType filters k = ''globalSearch''"
    by (simp add: filterType_def findFilter_None [symmetric])
  then have m: "matches filters applied item k = globalSearch item (JStr s)"
    using assms(2) by (simp add: matches_def Let_def)
  then show ?thesis by (auto simp: globalSearch_string)
qed

theorem globalSearch_fallback_witness:
  "\<not> isVisible \<lparr>title = ''Note'', key = ''note'', col_dataIndex = ''note'', visible = JBool False\<rparr>
   \<and> matches None [(''globalSearch'', JStr ''SEC'')]
     [(''name'', JStr ''Al''), (''note'', JStr ''Top secret''), (''id'', JNum 7)] ''globalSearch''
     = Inr True
   \<and> matches (Some [\<lparr>type = ''input'', dataIndex = ''name'', onFilterChange = None\<rparr>])
        [(''other'', JStr ''7'')]
        [(''name'', JStr ''Al''), (''id'', JNum 7)] ''other'' = Inr True
   \<and> matches None [(''globalSearch'', JStr ''zz'')]
        [(''name'', JStr ''Al''), (''id'', JNum 7)] ''globalSearch'' = Inr False"
proof -
  have a: "\<forall>fd \<in> set (getFilters None). dataIndex fd \<noteq> ''globalSearch''"
    by (simp add: getFilters_def)
  have b: "\<forall>fd \<in> set (getFilters
               (Some [\<lparr>type = ''input'', dataIndex = ''name'', onFilterChange = None\<rparr>])).
             dataIndex fd \<noteq> ''other''"
    by (simp add: getFilters_def)
  have g1: "get [(''globalSearch'', JStr ''SEC'')] ''globalSearch'' = JStr ''SEC''"
    by (simp add: get_def)
  have g2: "get [(''other'', JStr ''7'')] ''other'' = JStr ''7''"
    by (simp add: get_def)
  have g3: "get [(''globalSearch'', JStr ''zz'')] ''globalSearch'' = JStr ''zz''"
    by (simp add: get_def)
  have c1: "sublist (toLowerCase ''SEC'') (toLowerCase (ToString (JStr ''Top secret'')))"
    by code_simp
  have c2: "sublist (toLowerCase ''7'') (toLowerCase (ToString (JNum 7)))"
    by code_simp
  have c3: "\<not> sublist (toLowerCase ''zz'') (toLowerCase (ToString (JStr ''Al'')))"
           "\<not> sublist (toLowerCase ''zz'') (toLowerCase (ToString (JNum 7)))"
    by code_simp+
  have v: "\<not> isVisible
      \<lparr>title = ''Note'', key = ''note'', col_dataIndex = ''note'', visible = JBool False\<rparr>"
    by (simp add: isVisible_def array_includes_def falsy_def)
  show ?thesis
    using globalSearch_fallback [OF a g1, THEN conjunct1,
            of "[(''name'', JStr ''Al''), (''note'', JStr ''Top secret''), (''id'', JNum 7)]"]
      globalSearch_fallback [OF b g2, THEN conjunct1, of "[(''name'', JStr ''Al''), (''id'', JNum 7)]"]
      globalSearch_fallback [OF a g3, THEN conjunct1, of "[(''name'', JStr ''Al''), (''id'', JNum 7)]"]
      c1 c2 c3 v
    by (simp add: keys_def get_def)
qed



section \<open>The three filter types\<close>

text \<open>
  Claim C7. When the first filter whose \<open>dataIndex\<close> is the applied key has type
  \<open>select\<close>, the row matches exactly when its field, converted to a string, is equal to
  the applied value converted to a string; the comparison distinguishes case.
\<close>

theorem select_exact:
  assumes "findFilter filters k = Some fd" and "type fd = ''select''"
  shows "matches filters applied item k = Inr (ToString (get item k) = ToString (get applied k))"
  using assms by (simp add: matches_def Let_def filterType_found)

theorem select_exact_witness:
  "matches (Some [\<lparr>type = ''select'', dataIndex = ''status'', onFilterChange = None\<rparr>])
     [(''status'', JStr ''active'')] [(''status'', JStr ''active'')] ''status'' = Inr True
   \<and> matches (Some [\<lparr>type = ''select'', dataIndex = ''status'', onFilterChange = None\<rparr>])
       [(''status'', JStr ''active'')] [(''status'', JStr ''Active'')] ''status'' = Inr False
   \<and> matches (Some [\<lparr>type = ''select'', dataIndex = ''n'', onFilterChange = None\<rparr>])
       [(''n'', JStr ''12'')] [(''n'', JNum 12)] ''n'' = Inr True"
proof -
  let ?fd = "\<lparr>type = ''select'', dataIndex = ''status'', onFilterChange = None\<rparr>"
  let ?fn = "\<lparr>type = ''select'', dataIndex = ''n'', onFilterChange = None\<rparr>"
  have f: "findFilter (Some [?fd]) ''status'' = Some ?fd"
    by (simp add: findFilter_def getFilters_def)
  have g: "findFilter (Some [?fn]) ''n'' = Some ?fn"
    by (simp add: findFilter_def getFilters_def)
  have t: "type ?fd = ''select''" "type ?fn = ''select''"
    by simp_all
  have n: "ToString (JNum 12) = ''12''"
    by code_simp
  show ?thesis
    using select_exact [OF f t(1), of "[(''status'', JStr ''active'')]" "[(''status'', JStr ''active'')]"]
      select_exact [OF f t(1), of "[(''status'', JStr ''active'')]" "[(''status'', JStr ''Active'')]"]
      select_exact [OF g t(2), of "[(''n'', JStr ''12'')]" "[(''n'', JNum 12)]"] n
    by (simp add: get_def)
qed

text \<open>
  Claim C8. When that filter has type \<open>input\<close>, the row matches exactly when its
  field, converted to a string and lower-cased, contains the applied value, converted
  and lower-cased likewise; the empty string is contained in every field, also in a
  missing one.
\<close>

theorem input_substring:
  assumes "findFilter filters k = Some fd" and "type fd = ''input''"
  shows "matches filters applied item k =
           Inr (sublist (toLowerCase (ToString (get applied k)))
                        (toLowerCase (ToString (get item k))))
         \<and> (get applied k = JStr [] \<longrightarrow> matches filters applied item k = Inr True)"
  using assms by (simp add: matches_def Let_def filterType_found str_includes_sublist toLowerCase_def)

theorem input_substring_witness:
  "matches (Some [\<lparr>type = ''input'', dataIndex = ''name'', onFilterChange = None\<rparr>])
     [(''name'', JStr ''an'')] [(''name'', JStr ''Anna'')] ''name'' = Inr True
   \<and> matches (Some [\<lparr>type = ''input'', dataIndex = ''name'', onFilterChange = None\<rparr>])
       [(''name'', JStr ''AN'')] [(''name'', JStr ''banana'')] ''name'' = Inr True
   \<and> matches (Some [\<lparr>type = ''input'', dataIndex = ''name'', onFilterChange = None\<rparr>])
       [(''name'', JStr ''an'')] [(''name'', JStr ''Bo'')] ''name'' = Inr False
   \<and> matches (Some [\<lparr>type = ''input'', dataIndex = ''name'', onFilterChange = None\<rparr>])
       [(''name'', JStr '''')] [(''id'', JNum 3)] ''name'' = Inr True"
proof -
  let ?fd = "\<lparr>type = ''input'', dataIndex = ''name'', onFilterChange = None\<rparr>"
  have f: "findFilter (Some [?fd]) ''name'' = Some ?fd"
    by (simp add: findFilter_def getFilters_def)
  have t: "type ?fd = ''input''"
    by simp
  have c: "sublist (toLowerCase ''an'') (toLowerCase ''Anna'')"
          "sublist (toLowerCase ''AN'') (toLowerCase ''banana'')"
          "\<not> sublist (toLowerCase ''an'') (toLowerCase ''Bo'')"
    by code_simp+
  have e: "toLowerCase [] = []"
    by (simp add: toLowerCase_def)
  show ?thesis
    using input_substring [OF f t, of "[(''name'', JStr ''an'')]" "[(''name'', JStr ''Anna'')]"]
      input_substring [OF f t, of "[(''name'', JStr ''AN'')]" "[(''name'', JStr ''banana'')]"]
      input_substring [OF f t, of "[(''name'', JStr ''an'')]" "[(''name'', JStr ''Bo'')]"]
      input_substring [OF f t, of "[(''name'', JStr '''')]" "[(''id'', JNum 3)]"] c
    by (simp add: get_def e)
qed

text \<open>
  Claim C9. When that filter has type \<open>toggle\<close>, the row matches exactly when the
  truthiness of its field equals the truthiness of the applied value.
\<close>

theorem toggle_truthiness:
  assumes "findFilter filters k = Some fd" and "type fd = ''toggle''"
  shows "matches filters applied item k = Inr (ToBoolean (get item k) = ToBoolean (get applied k))"
  using assms by (simp add: matches_def Let_def filterType_found)

theorem toggle_truthiness_witness:
  "matches (Some [\<lparr>type = ''toggle'', dataIndex = ''active'', onFilterChange = None\<rparr>])
     [(''active'', JBool True)] [(''active'', JNum 1)] ''active'' = Inr True
   \<and> matches (Some [\<lparr>type = ''toggle'', dataIndex = ''active'', onFilterChange = None\<rparr>])
       [(''active'', JBool True)] [(''active'', JStr ''yes'')] ''active'' = Inr True
   \<and> matches (Some [\<lparr>type = ''toggle'', dataIndex = ''active'', onFilterChange = None\<rparr>])
       [(''active'', JBool True)] [(''active'', JNum 0)] ''active'' = Inr False
   \<and> matches (Some [\<lparr>type = ''toggle'', dataIndex = ''active'', onFilterChange = None\<rparr>])
       [(''active'', JBool True)] [(''active'', JStr '''')] ''active'' = Inr False
   \<and> matches (Some [\<lparr>type = ''toggle'', dataIndex = ''active'', onFilterChange = None\<rparr>])
       [(''active'', JBool False)] [(''id'', JNum 2)] ''active'' = Inr True"
proof -
  let ?fd = "\<lparr>type = ''toggle'', dataIndex = ''active'', onFilterChange = None\<rparr>"
  have f: "findFilter (Some [?fd]) ''active'' = Some ?fd"
    by (simp add: findFilter_def getFilters_def)
  have t: "type ?fd = ''toggle''"
    by simp
  show ?thesis
    using toggle_truthiness [OF f t, of "[(''active'', JBool True)]" "[(''active'', JNum 1)]"]
      toggle_truthiness [OF f t, of "[(''active'', JBool True)]" "[(''active'', JStr ''yes'')]"]
      toggle_truthiness [OF f t, of "[(''active'', JBool True)]" "[(''active'', JNum 0)]"]
      toggle_truthiness [OF f t, of "[(''active'', JBool True)]" "[(''active'', JStr '''')]"]
      toggle_truthiness [OF f t, of "[(''active'', JBool False)]" "[(''id'', JNum 2)]"]
    by (simp add: get_def)
qed



section \<open>Column visibility\<close>

text \<open>
  Claim C3. A column is hidden exactly when its \<open>visible\<close> attribute is one of
  \<open>false\<close>, \<open>"0"\<close>, \<open>"false"\<close> and \<open>0\<close>; a column whose attribute is absent, \<open>null\<close>, \<open>"1"\<close>,
  \<open>1\<close>, another string, the empty string among them, \<open>true\<close> or \<open>NaN\<close> is shown.
\<close>

theorem isVisible_falsy_set:
  "(\<not> isVisible column \<longleftrightarrow> visible column \<in> {JBool False, JStr ''0'', JStr ''false'', JNum 0})
   \<and> (visible column \<in> {JUndefined, JNull, JStr ''1'', JNum 1, JStr ''yes'', JStr [], JBool True, JNaN}
        \<longrightarrow> isVisible column)"
  by (auto simp: isVisible_def array_includes_def falsy_def)

theorem isVisible_falsy_set_witness:
  "\<not> isVisible \<lparr>title = ''Id'', key = ''id'', col_dataIndex = ''id'', visible = JStr ''0''\<rparr>
   \<and> \<not> isVisible \<lparr>title = ''Id'', key = ''id'', col_dataIndex = ''id'', visible = JNum 0\<rparr>
   \<and> isVisible \<lparr>title = ''Id'', key = ''id'', col_dataIndex = ''id'', visible = JUndefined\<rparr>
   \<and> isVisible \<lparr>title = ''Id'', key = ''id'', col_dataIndex = ''id'', visible = JStr []\<rparr>"
  using isVisible_falsy_set [of "\<lparr>title = ''Id'', key = ''id'', col_dataIndex = ''id'', visible = JStr ''0''\<rparr>"]
    isVisible_falsy_set [of "\<lparr>title = ''Id'', key = ''id'', col_dataIndex = ''id'', visible = JNum 0\<rparr>"]
    isVisible_falsy_set [of "\<lparr>title = ''Id'', key = ''id'', col_dataIndex = ''id'', visible = JUndefined\<rparr>"]
    isVisible_falsy_set [of "\<lparr>title = ''Id'', key = ''id'', col_dataIndex = ''id'', visible = JStr []\<rparr>"]
  by simp

text \<open>
  The implementation with pagination compares with \<open>false\<close> only, and so shows a
  column whose attribute is \<open>"0"\<close>.
\<close>

lemma isVisible_strict_differs:
  "isVisible_strict \<lparr>title = ''Id'', key = ''id'', col_dataIndex = ''id'', visible = JStr ''0''\<rparr>
   \<and> \<not> isVisible \<lparr>title = ''Id'', key = ''id'', col_dataIndex = ''id'', visible = JStr ''0''\<rparr>"
  by (simp add: isVisible_strict_def isVisible_def array_includes_def falsy_def)

section \<open>Pagination\<close>

lemma page_numbers_upto: "map (\<lambda>pageNumber. int pageNumber + 1) [0 ..< n] = [1 .. int n]"
proof (induction n)
  case 0
  then show ?case by simp
next
  case (Suc n)
  have "[1 .. int (Suc n)] = [1 .. int n] @ [int n + 1]"
    by (simp add: upto_rec2 add.commute)
  with Suc show ?case by simp
qed

lemma pageCount_div: "pageCount n pl = int n div pl"
proof -
  have "real n / real_of_int pl = real_of_int (int n) / real_of_int pl"
    by simp
  then show ?thesis
    unfolding pageCount_def by (simp only: floor_divide_of_int_eq)
qed

text \<open>
  Claim C4. For a page length of at least 1 the page count is the number of filtered
  rows divided by the page length, rounded down, and the pagination bar, when it is
  rendered, offers the pages from 1 to that count. When the division leaves a
  remainder, rows lie beyond the last page offered, and the page that holds them is
  not offered.
\<close>

theorem pageCount_floor:
  assumes "1 \<le> pl"
  shows "pageCount (length rows) pl = int (length rows) div pl
     \<and> (pl < int (length rows) \<longrightarrow>
          pageNumbers rows pl = Inr (Some [1 .. int (length rows) div pl]))
     \<and> (int (length rows) mod pl \<noteq> 0 \<longrightarrow>
          pageCount (length rows) pl * pl < int (length rows)
          \<and> (\<forall>ps. pageNumbers rows pl = Inr (Some ps) \<longrightarrow> int (length rows) div pl + 1 \<notin> set ps))"
proof (intro conjI impI allI)
  let ?n = "int (length rows)"
  show c: "pageCount (length rows) pl = ?n div pl"
    by (rule pageCount_div)
  have nonneg: "0 \<le> ?n div pl"
    using assms by (simp add: pos_imp_zdiv_nonneg_iff)
  show p: "pageNumbers rows pl = Inr (Some [1 .. ?n div pl])" if "pl < ?n"
    using that assms nonneg by (simp add: pageNumbers_def c page_numbers_upto)
  show "pageCount (length rows) pl * pl < ?n" if "?n mod pl \<noteq> 0"
  proof -
    have "?n = ?n div pl * pl + ?n mod pl" by simp
    moreover have "0 < ?n mod pl"
      using that assms pos_mod_sign [of pl ?n] by linarith
    ultimately show ?thesis unfolding c by linarith
  qed
  show "?n div pl + 1 \<notin> set ps" if "pageNumbers rows pl = Inr (Some ps)" for ps
  proof (cases "pl < ?n")
    case True
    with p that have "ps = [1 .. ?n div pl]" by simp
    then show ?thesis by simp
  next
    case False
    with that show ?thesis by (simp add: pageNumbers_def)
  qed
qed

theorem pageCount_floor_witness:
  "(1::int) \<le> 50
   \<and> pageCount (length (replicate 125 [(''id'', JNum 1)])) 50 = 2
   \<and> pageNumbers (replicate 125 [(''id'', JNum 1)]) 50 = Inr (Some [1, 2])
   \<and> pageCount (length (replicate 125 [(''id'', JNum 1)])) 50 * 50 < 125"
proof -
  have h: "(1::int) \<le> 50" by simp
  have u: "[1 .. 2::int] = [1, 2]" by (simp add: upto.simps)
  show ?thesis
    using pageCount_floor [OF h, of "replicate 125 [(''id'', JNum 1)]"] u by simp
qed


lemma js_slice_window:
  assumes "0 \<le> start" and "0 \<le> len"
  shows "js_slice xs start (start + len) = take (nat len) (drop (nat start) xs)"
proof (cases "start < int (length xs)")
  case True
  show ?thesis
  proof (cases "start + len \<le> int (length xs)")
    case True
    with assms \<open>start < int (length xs)\<close> show ?thesis
      by (simp add: js_slice_def Let_def min_def)
  next
    case False
    with assms \<open>start < int (length xs)\<close>
    have "nat (int (length xs) - start) = length (drop (nat start) xs)"
      and "length (drop (nat start) xs) \<le> nat len"
      by auto
    with assms \<open>start < int (length xs)\<close> False show ?thesis
      by (simp add: js_slice_def Let_def min_def)
  qed
next
  case False
  with assms show ?thesis
    by (simp add: js_slice_def Let_def min_def)
qed

lemma take_drop_nth:
  assumes "i < length (take b (drop a xs))"
  shows "take b (drop a xs) ! i = xs ! (a + i)"
proof -
  from assms have "i < b" and "i < length xs - a"
    by simp_all
  then have "a \<le> length xs"
    by arith
  then have "drop a xs ! i = xs ! (a + i)"
    by (rule nth_drop)
  with \<open>i < b\<close> show ?thesis
    by simp
qed

text \<open>
  Claim C5. For a current page and a page length of at least 1, the page shown holds
  the rows at the positions from \<open>(currentPage - 1) * pageLength\<close> up to, and not
  including, \<open>currentPage * pageLength\<close>, as far as the rows reach: fewer rows when the
  window runs past the last row, none when it starts past it. The slice is total;
  no page number makes it fail.
\<close>

theorem paginatedData_window:
  assumes "1 \<le> currentPage pd" and "1 \<le> pageLength pd"
  shows "paginatedData rows pd =
           take (nat (pageLength pd)) (drop (nat ((currentPage pd - 1) * pageLength pd)) rows)
     \<and> length (paginatedData rows pd) =
           min (nat (currentPage pd * pageLength pd)) (length rows)
           - min (nat ((currentPage pd - 1) * pageLength pd)) (length rows)
     \<and> (\<forall>i < length (paginatedData rows pd).
           paginatedData rows pd ! i = rows ! (nat ((currentPage pd - 1) * pageLength pd) + i))
     \<and> (int (length rows) \<le> (currentPage pd - 1) * pageLength pd \<longrightarrow> paginatedData rows pd = [])"
proof -
  let ?s = "(currentPage pd - 1) * pageLength pd"
  have s: "0 \<le> ?s" and l: "0 \<le> pageLength pd"
    using assms by simp_all
  have e: "pageLength pd * currentPage pd = ?s + pageLength pd"
    by (simp add: algebra_simps)
  have w: "paginatedData rows pd = take (nat (pageLength pd)) (drop (nat ?s) rows)"
    unfolding paginatedData_def e by (rule js_slice_window [OF s l])
  have n: "nat (currentPage pd * pageLength pd) = nat ?s + nat (pageLength pd)"
    using s l by (simp add: algebra_simps nat_add_distrib [symmetric])
  have m: "min (L - a) b = min (a + b) L - min a L" for a b L :: nat
    by (auto simp: min_def)
  have len: "length (paginatedData rows pd) =
      min (nat (currentPage pd * pageLength pd)) (length rows) - min (nat ?s) (length rows)"
    unfolding w n by (simp add: m)
  have nth: "\<forall>i < length (paginatedData rows pd). paginatedData rows pd ! i = rows ! (nat ?s + i)"
    unfolding w by (intro allI impI) (rule take_drop_nth)
  have emp: "int (length rows) \<le> ?s \<longrightarrow> paginatedData rows pd = []"
    unfolding w using s by auto
  from w len nth emp show ?thesis by blast
qed

theorem paginatedData_window_witness:
  "paginatedData (map (\<lambda>i. [(''id'', JNum i)]) [0 .. 6]) \<lparr>currentPage = 1, pageLength = 3\<rparr>
     = map (\<lambda>i. [(''id'', JNum i)]) [0, 1, 2]
   \<and> paginatedData (map (\<lambda>i. [(''id'', JNum i)]) [0 .. 6]) \<lparr>currentPage = 3, pageLength = 3\<rparr>
     = map (\<lambda>i. [(''id'', JNum i)]) [6]
   \<and> paginatedData (map (\<lambda>i. [(''id'', JNum i)]) [0 .. 6]) \<lparr>currentPage = 4, pageLength = 3\<rparr>
     = []"
proof -
  have u: "[0 .. 6::int] = [0, 1, 2, 3, 4, 5, 6]"
    by (simp add: upto.simps)
  show ?thesis
    using paginatedData_window [of "\<lparr>currentPage = 1, pageLength = 3\<rparr>" "map (\<lambda>i. [(''id'', JNum i)]) [0 .. 6]"]
      paginatedData_window [of "\<lparr>currentPage = 3, pageLength = 3\<rparr>" "map (\<lambda>i. [(''id'', JNum i)]) [0 .. 6]"]
      paginatedData_window [of "\<lparr>currentPage = 4, pageLength = 3\<rparr>" "map (\<lambda>i. [(''id'', JNum i)]) [0 .. 6]"]
    by (simp add: u)
qed

text \<open>
  \<open>setPageNumber\<close> stores the page it is given without comparing it with the page
  count; the next slice is taken at that page.
\<close>

lemma setPageNumber_page:
  "paginatedData rows (pageData (setPageNumber page st)) =
     js_slice rows ((page - 1) * pageLength (pageData st)) (pageLength (pageData st) * page)"
  by (simp add: setPageNumber_def paginatedData_def)


section \<open>Changing a filter\<close>

text \<open>
  Claim C6. The claim is that no operation fails, whatever the key and the value. In
  the implementation with pagination, \<open>handleFilterChange\<close> reads \<open>onFilterChange\<close> of
  the filter found for the key before it merges the value; for the key of the global
  search box no filter is found, and the read throws. The implementation without
  pagination merges the value for the same call. In both, a boolean applied under a
  key that falls to the global search makes the filtering throw on the first row that
  has a field, since \<open>toLowerCase\<close> is called on the value itself.
\<close>

theorem handleFilterChange_unknown_key_raises:
  "snd (handleFilterChange None (JStr ''abc'') ''globalSearch''
          \<lparr>renderData = [], appliedFilters = [], filterValues = [],
           pageData = \<lparr>currentPage = 1, pageLength = 50\<rparr>\<rparr>)
     = Inl TypeError
   \<and> snd (handleFilterChange
            (Some [\<lparr>type = ''input'', dataIndex = ''name'', onFilterChange = None\<rparr>])
            (JStr ''abc'') ''globalSearch''
            \<lparr>renderData = [], appliedFilters = [], filterValues = [],
             pageData = \<lparr>currentPage = 1, pageLength = 50\<rparr>\<rparr>)
     = Inl TypeError
   \<and> handleFilterChange2 (JStr ''abc'') ''globalSearch'' [] = [(''globalSearch'', JStr ''abc'')]
   \<and> apply_filters None [(''flag'', JBool True)] [[(''id'', JNum 1)]] = Inl TypeError"
  by (simp add: handleFilterChange_def findFilter_def getFilters_def handleFilterChange2_def
        apply_filters_def keys_def matches_def filterType_def get_def globalSearch_def
        call_toLowerCase_def)

section \<open>Row keys\<close>

text \<open>
  Claim C10 reads the row key as \<open>row[rowKey]\<close> when \<open>rowKey\<close> is set and the row has
  that field, and as \<open>row["key"]\<close> or null otherwise. The code asks only whether
  \<open>rowKey\<close> is set: a row without that field gets \<open>undefined\<close>, also when it has a
  \<open>key\<close> field.
\<close>

theorem getRowKey_counterexample:
  "getRowKey (Some ''id'') [(''key'', JStr ''k1'')] = JUndefined
   \<and> getRowKey_spec (Some ''id'') [(''key'', JStr ''k1'')] = JStr ''k1''"
  by (simp add: getRowKey_def getRowKey_spec_def get_def keys_def)

text \<open>
  Claim C10, amended. When \<open>rowKey\<close> is a non-empty string the row key is
  \<open>row[rowKey]\<close>, which is \<open>undefined\<close> for a row without that field. When \<open>rowKey\<close> is
  absent or empty, the row key is \<open>row["key"]\<close> if that value is truthy, and null if
  the row has no \<open>key\<close> field.
\<close>

theorem getRowKey_contract:
  "(rowKey = Some rk \<and> rk \<noteq> [] \<longrightarrow>
      getRowKey rowKey item = get item rk
      \<and> (rk \<notin> set (keys item) \<longrightarrow> getRowKey rowKey item = JUndefined))
   \<and> (rowKey \<in> {None, Some []} \<and> ToBoolean (get item ''key'') \<longrightarrow>
        getRowKey rowKey item = get item ''key'')
   \<and> (rowKey \<in> {None, Some []} \<and> ''key'' \<notin> set (keys item) \<longrightarrow>
        getRowKey rowKey item = JNull)"
  by (auto simp: getRowKey_def get_absent)

theorem getRowKey_contract_witness:
  "getRowKey (Some ''id'') [(''id'', JNum 4), (''key'', JStr ''k1'')] = JNum 4
   \<and> getRowKey (Some ''id'') [(''key'', JStr ''k1'')] = JUndefined
   \<and> getRowKey None [(''id'', JNum 4), (''key'', JStr ''k1'')] = JStr ''k1''
   \<and> getRowKey None [(''id'', JNum 4)] = JNull"
  using getRowKey_contract [of "Some ''id''" "''id''" "[(''id'', JNum 4), (''key'', JStr ''k1'')]"]
    getRowKey_contract [of "Some ''id''" "''id''" "[(''key'', JStr ''k1'')]"]
    getRowKey_contract [of None "''id''" "[(''id'', JNum 4), (''key'', JStr ''k1'')]"]
    getRowKey_contract [of None "''id''" "[(''id'', JNum 4)]"]
  by (simp add: get_def keys_def)

end
